theory Spec2Isabelle
  imports Main
begin

section \<open>Presubmit filters of prow/pjutil/filter.go\<close>

subsection \<open>The presubmit as seen by the filters\<close>

text \<open>
  Modelled from the spec: the struct \<open>config.Presubmit\<close> and its methods live in the
  package \<open>prow/config\<close>, outside \<open>filter.go\<close>. The filters use a presubmit only through
  its field \<open>Name\<close> and the three methods \<open>TriggerMatches\<close>, \<open>NeedsExplicitTrigger\<close> and
  \<open>ShouldRun\<close>, so a presubmit is the record of exactly these four observations. Nothing
  is assumed about what the methods compute: every theorem below holds for all of them.

  \<open>'c\<close> is the type of the \<open>config.ChangedFilesProvider\<close> handed through to \<open>ShouldRun\<close>
  and \<open>'e\<close> the type of non-nil Go \<open>error\<close> values. \<open>ShouldRun\<close> returns the pair
  \<open>(bool, error)\<close> of the Go signature, the error being \<open>None\<close> for \<open>nil\<close>.
\<close>

record ('c, 'e) Presubmit =
  Name :: string
  TriggerMatches :: "string \<Rightarrow> bool"
  NeedsExplicitTrigger :: bool
  ShouldRun :: "string \<Rightarrow> 'c \<Rightarrow> bool \<Rightarrow> bool \<Rightarrow> bool \<times> 'e option"

text \<open>
  \<open>type Filter func(p config.Presubmit) (shouldRun bool, forcedToRun bool, defaultBehavior bool)\<close>
\<close>

type_synonym ('c, 'e) Filter = "('c, 'e) Presubmit \<Rightarrow> bool \<times> bool \<times> bool"

subsection \<open>Filter constructors\<close>

definition CommandFilter :: "string \<Rightarrow> ('c, 'e) Filter" where
  "CommandFilter body = (\<lambda>p. (TriggerMatches p body, TriggerMatches p body, True))"

definition TestAllFilter :: "('c, 'e) Filter" where
  "TestAllFilter = (\<lambda>p. (\<not> NeedsExplicitTrigger p, False, False))"

text \<open>
  The body of the closure returned by \<open>AggregateFilter\<close>: the \<open>for ... range filters\<close>
  loop, returning from inside the loop at the first child whose first component is true.
\<close>

fun aggregate_loop :: "('c, 'e) Filter list \<Rightarrow> ('c, 'e) Presubmit \<Rightarrow> bool \<times> bool \<times> bool" where
  "aggregate_loop [] presubmit = (False, False, False)"
| "aggregate_loop (filt # filters) presubmit =
     (case filt presubmit of (shouldRun, forced, defaults) \<Rightarrow>
        if shouldRun then (shouldRun, forced, defaults)
        else aggregate_loop filters presubmit)"

definition AggregateFilter :: "('c, 'e) Filter list \<Rightarrow> ('c, 'e) Filter" where
  "AggregateFilter filters = (\<lambda>presubmit. aggregate_loop filters presubmit)"

subsection \<open>FilterPresubmits\<close>

text \<open>
  The calls that \<open>FilterPresubmits\<close> makes to its collaborators, in the order it makes
  them: each evaluation of a presubmit's \<open>ShouldRun\<close> with the arguments passed, and the
  one \<open>logger.WithFields(...).Debugf(...)\<close> call with the two name lists and the three
  counts of the format string. The logger is an opaque handle of type \<open>'l\<close> (a usable
  \<open>*logrus.Entry\<close>).
\<close>

datatype ('c, 'e, 'l) call =
    is_ShouldRunCall: ShouldRunCall (callee: "('c, 'e) Presubmit") string 'c bool bool
  | DebugfCall 'l "string list" "string list" nat nat nat

text \<open>The four local slices of \<open>FilterPresubmits\<close>; a nil slice is the empty list.\<close>

record ('c, 'e) slices =
  toTrigger :: "('c, 'e) Presubmit list"
  namesToTrigger :: "string list"
  toSkip :: "('c, 'e) Presubmit list"
  namesToSkip :: "string list"

definition no_slices :: "('c, 'e) slices" where
  "no_slices = \<lparr>toTrigger = [], namesToTrigger = [], toSkip = [], namesToSkip = []\<rparr>"

text \<open>
  The \<open>for ... range presubmits\<close> loop. It returns \<open>Inl err\<close> where the source returns
  from inside the loop, and the slices otherwise, together with the calls made so far.
\<close>

fun presubmits_loop ::
  "('c, 'e) Filter \<Rightarrow> 'c \<Rightarrow> string \<Rightarrow> ('c, 'e) Presubmit list \<Rightarrow> ('c, 'e) slices \<Rightarrow>
   ('c, 'e, 'l) call list \<Rightarrow> ('e + ('c, 'e) slices) \<times> ('c, 'e, 'l) call list" where
  "presubmits_loop filt changes branch [] s calls = (Inr s, calls)"
| "presubmits_loop filt changes branch (presubmit # rest) s calls =
     (case filt presubmit of (matches, forced, defaults) \<Rightarrow>
        if \<not> matches then presubmits_loop filt changes branch rest s calls
        else
          (case ShouldRun presubmit branch changes forced defaults of (shouldRun, err) \<Rightarrow>
             let calls' = calls @ [ShouldRunCall presubmit branch changes forced defaults] in
             (case err of
                Some e \<Rightarrow> (Inl e, calls')
              | None \<Rightarrow>
                  if shouldRun then
                    presubmits_loop filt changes branch rest
                      (s\<lparr>toTrigger := toTrigger s @ [presubmit],
                         namesToTrigger := namesToTrigger s @ [Name presubmit]\<rparr>) calls'
                  else
                    presubmits_loop filt changes branch rest
                      (s\<lparr>toSkip := toSkip s @ [presubmit],
                         namesToSkip := namesToSkip s @ [Name presubmit]\<rparr>) calls')))"

text \<open>
  \<open>FilterPresubmits\<close> returns the Go triple \<open>(toTrigger, toSkip, err)\<close> and, beside it,
  the calls it made. This is the function for a logger whose log call returns; what a
  logger does whose call does not return is in \<open>FilterPresubmits_outcome\<close> below.
\<close>

definition FilterPresubmits ::
  "('c, 'e) Filter \<Rightarrow> 'c \<Rightarrow> string \<Rightarrow> ('c, 'e) Presubmit list \<Rightarrow> 'l \<Rightarrow>
   (('c, 'e) Presubmit list \<times> ('c, 'e) Presubmit list \<times> 'e option) \<times> ('c, 'e, 'l) call list" where
  "FilterPresubmits filt changes branch presubmits logger =
     (case presubmits_loop filt changes branch presubmits no_slices [] of
        (Inl err, calls) \<Rightarrow> (([], [], Some err), calls)
      | (Inr s, calls) \<Rightarrow>
          ((toTrigger s, toSkip s, None),
           calls @ [DebugfCall logger (namesToTrigger s) (namesToSkip s)
                      (length presubmits) (length (toTrigger s)) (length (toSkip s))]))"

text \<open>The three components of what a filter says about a presubmit.\<close>

definition matches_of :: "('c, 'e) Filter \<Rightarrow> ('c, 'e) Presubmit \<Rightarrow> bool" where
  "matches_of filt p = fst (filt p)"

definition forced_of :: "('c, 'e) Filter \<Rightarrow> ('c, 'e) Presubmit \<Rightarrow> bool" where
  "forced_of filt p = fst (snd (filt p))"

definition defaults_of :: "('c, 'e) Filter \<Rightarrow> ('c, 'e) Presubmit \<Rightarrow> bool" where
  "defaults_of filt p = snd (snd (filt p))"

text \<open>
  What \<open>FilterPresubmits\<close> gets from a matched presubmit: its \<open>ShouldRun\<close> on the flags
  the filter gave.
\<close>

definition run_condition ::
  "('c, 'e) Filter \<Rightarrow> 'c \<Rightarrow> string \<Rightarrow> ('c, 'e) Presubmit \<Rightarrow> bool \<times> 'e option" where
  "run_condition filt changes branch p =
     ShouldRun p branch changes (forced_of filt p) (defaults_of filt p)"

text \<open>The \<open>ShouldRun\<close> call that \<open>FilterPresubmits\<close> makes for a matched presubmit.\<close>

definition should_run_call ::
  "('c, 'e) Filter \<Rightarrow> 'c \<Rightarrow> string \<Rightarrow> ('c, 'e) Presubmit \<Rightarrow> ('c, 'e, 'l) call" where
  "should_run_call filt changes branch p =
     ShouldRunCall p branch changes (forced_of filt p) (defaults_of filt p)"

text \<open>The presubmits whose \<open>ShouldRun\<close> was evaluated, in the order of the calls.\<close>

definition evaluated :: "('c, 'e, 'l) call list \<Rightarrow> ('c, 'e) Presubmit list" where
  "evaluated calls = map callee (filter is_ShouldRunCall calls)"

text \<open>A matched presubmit whose \<open>ShouldRun\<close> returns a non-nil error.\<close>

definition run_condition_fails ::
  "('c, 'e) Filter \<Rightarrow> 'c \<Rightarrow> string \<Rightarrow> ('c, 'e) Presubmit \<Rightarrow> bool" where
  "run_condition_fails filt changes branch p =
     (matches_of filt p \<and> snd (run_condition filt changes branch p) \<noteq> None)"

text \<open>The matched presubmits whose \<open>ShouldRun\<close> says true, and those where it says false.\<close>

definition triggers ::
  "('c, 'e) Filter \<Rightarrow> 'c \<Rightarrow> string \<Rightarrow> ('c, 'e) Presubmit \<Rightarrow> bool" where
  "triggers filt changes branch p =
     (matches_of filt p \<and> fst (run_condition filt changes branch p))"

definition skips ::
  "('c, 'e) Filter \<Rightarrow> 'c \<Rightarrow> string \<Rightarrow> ('c, 'e) Presubmit \<Rightarrow> bool" where
  "skips filt changes branch p =
     (matches_of filt p \<and> \<not> fst (run_condition filt changes branch p))"

subsection \<open>A logger whose call need not return\<close>




subsection \<open>Example presubmits\<close>

definition job_foo :: "(unit, string) Presubmit" where
  "job_foo = \<lparr>Name = ''foo'', TriggerMatches = (\<lambda>body. body = ''/test foo''),
              NeedsExplicitTrigger = False,
              ShouldRun = (\<lambda>branch changes forced defaults. (True, None))\<rparr>"

definition job_bar :: "(unit, string) Presubmit" where
  "job_bar = \<lparr>Name = ''bar'', TriggerMatches = (\<lambda>body. body = ''/test bar''),
              NeedsExplicitTrigger = True,
              ShouldRun = (\<lambda>branch changes forced defaults. (forced, None))\<rparr>"

definition job_skip :: "(unit, string) Presubmit" where
  "job_skip = \<lparr>Name = ''skip'', TriggerMatches = (\<lambda>body. body = ''/test skip''),
               NeedsExplicitTrigger = False,
               ShouldRun = (\<lambda>branch changes forced defaults. (defaults, None))\<rparr>"

definition job_bad :: "(unit, string) Presubmit" where
  "job_bad = \<lparr>Name = ''bad'', TriggerMatches = (\<lambda>body. body = ''/test bad''),
              NeedsExplicitTrigger = False,
              ShouldRun = (\<lambda>branch changes forced defaults. (False, Some ''bad pattern''))\<rparr>"

subsection \<open>Example loggers\<close>


section \<open>Evaluating the examples\<close>

lemmas example_defs =
  job_foo_def job_bar_def job_skip_def job_bad_def TestAllFilter_def CommandFilter_def
  matches_of_def forced_of_def defaults_of_def run_condition_def run_condition_fails_def
  triggers_def skips_def should_run_call_def

text \<open>
  The first scenario of the specification: with \<open>TestAllFilter\<close> a job that needs an
  explicit trigger is left out, the other one is triggered, and one \<open>ShouldRun\<close> call and
  the log call are made.
\<close>

lemma scenario_test_all:
  "FilterPresubmits TestAllFilter () ''main'' [job_foo, job_bar] (0::nat) =
     (([job_foo], [], None),
      [ShouldRunCall job_foo ''main'' () False False, DebugfCall 0 [''foo''] [] 2 1 0])"
  by (simp add: FilterPresubmits_def no_slices_def example_defs)

text \<open>The second scenario: \<open>/test foo\<close> selects \<open>foo\<close> only, and forces it.\<close>

lemma scenario_command:
  "FilterPresubmits (CommandFilter ''/test foo'') () ''main'' [job_foo, job_bar] (0::nat) =
     (([job_foo], [], None),
      [ShouldRunCall job_foo ''main'' () True True, DebugfCall 0 [''foo''] [] 2 1 0])"
  by (simp add: FilterPresubmits_def no_slices_def example_defs)

section \<open>The filter constructors\<close>

text \<open>
  C4: for every comment body and every job \<open>j\<close>, the filter built by \<open>CommandFilter body\<close>
  returns \<open>matches\<close> equal to \<open>j.TriggerMatches(body)\<close>, and whenever \<open>matches\<close> is true,
  \<open>forced\<close> is true and \<open>defaultBehavior\<close> is true.
\<close>

theorem CommandFilter_matches:
  "matches_of (CommandFilter body) j = TriggerMatches j body \<and>
   (matches_of (CommandFilter body) j \<longrightarrow>
      forced_of (CommandFilter body) j \<and> defaults_of (CommandFilter body) j)"
  by (simp add: CommandFilter_def matches_of_def forced_of_def defaults_of_def)

theorem CommandFilter_matches_witness:
  "matches_of (CommandFilter ''/test foo'') job_foo \<and>
   forced_of (CommandFilter ''/test foo'') job_foo \<and>
   defaults_of (CommandFilter ''/test foo'') job_foo"
  using CommandFilter_matches [of "''/test foo''" job_foo]
  by (simp add: job_foo_def)

text \<open>
  C5: for every job \<open>j\<close>, the filter built by \<open>TestAllFilter\<close> returns \<open>matches\<close> equal to
  the negation of \<open>j.NeedsExplicitTrigger()\<close>, with \<open>forced\<close> and \<open>defaultBehavior\<close> both
  false; the constructor takes no comment body at all.
\<close>

theorem TestAllFilter_result:
  "TestAllFilter j = (\<not> NeedsExplicitTrigger j, False, False)"
  by (simp add: TestAllFilter_def)

text \<open>
  C9: for every comment body and every job \<open>j\<close>, the third component of
  \<open>CommandFilter body j\<close> is the constant true, also when the job does not match.
\<close>

theorem CommandFilter_defaults_always:
  "defaults_of (CommandFilter body) j = True"
  by (simp add: CommandFilter_def defaults_of_def)

section \<open>The aggregate filter\<close>

text \<open>
  C7: the aggregate filter built from the empty list of filters returns
  \<open>(false, false, false)\<close> for every job.
\<close>

theorem AggregateFilter_empty:
  "AggregateFilter [] j = (False, False, False)"
  by (simp add: AggregateFilter_def)

text \<open>The loop is a search for the first child that matches.\<close>

lemma aggregate_loop_find:
  "aggregate_loop filters j =
     (case find (\<lambda>f. fst (f j)) filters of None \<Rightarrow> (False, False, False) | Some f \<Rightarrow> f j)"
  by (induction filters) (auto split: prod.splits)

text \<open>
  C2: for every ordered list of filters and every job, the aggregate filter returns the
  result of the first child, in the given order, whose \<open>matches\<close> component is true, and
  \<open>(false, false, false)\<close> if no child matches. For \<open>[F1, F2]\<close>: the result is \<open>F1 j\<close> if
  \<open>F1\<close> matches, whatever \<open>F2\<close> is; else \<open>F2 j\<close> if \<open>F2\<close> matches; else
  \<open>(false, false, false)\<close>.
\<close>

theorem AggregateFilter_first_match:
  "AggregateFilter filters j =
     (case find (\<lambda>f. matches_of f j) filters of
        None \<Rightarrow> (False, False, False)
      | Some f \<Rightarrow> f j)
   \<and> AggregateFilter [F1, F2] j =
     (if matches_of F1 j then F1 j
      else if matches_of F2 j then F2 j
      else (False, False, False))"
  by (simp add: AggregateFilter_def aggregate_loop_find matches_of_def split: prod.splits)

theorem AggregateFilter_first_match_witness:
  "AggregateFilter [TestAllFilter, CommandFilter ''/test bar''] job_bar = (True, True, True)
   \<and> AggregateFilter [CommandFilter ''/test foo'', TestAllFilter] job_foo = (True, True, True)
   \<and> AggregateFilter [TestAllFilter, CommandFilter ''/test foo''] job_foo = (True, False, False)
   \<and> AggregateFilter [TestAllFilter, CommandFilter ''/test foo''] job_bar = (False, False, False)"
  using
    AggregateFilter_first_match [of "[TestAllFilter, CommandFilter ''/test bar'']" job_bar
      TestAllFilter "CommandFilter ''/test bar''"]
    AggregateFilter_first_match [of "[CommandFilter ''/test foo'', TestAllFilter]" job_foo
      "CommandFilter ''/test foo''" TestAllFilter]
    AggregateFilter_first_match [of "[TestAllFilter, CommandFilter ''/test foo'']" job_foo
      TestAllFilter "CommandFilter ''/test foo''"]
    AggregateFilter_first_match [of "[TestAllFilter, CommandFilter ''/test foo'']" job_bar
      TestAllFilter "CommandFilter ''/test foo''"]
  by (simp add: matches_of_def TestAllFilter_def CommandFilter_def job_foo_def job_bar_def)

text \<open>
  C10: for every list of filters \<open>fs\<close> and every job \<open>j\<close>, the \<open>matches\<close> component of
  \<open>AggregateFilter fs\<close> on \<open>j\<close> is true if and only if some filter in \<open>fs\<close> matches \<open>j\<close>.
\<close>

theorem AggregateFilter_matches_iff:
  "matches_of (AggregateFilter filters) j \<longleftrightarrow> (\<exists>f \<in> set filters. matches_of f j)"
  unfolding AggregateFilter_def matches_of_def
  by (induction filters) (auto split: prod.splits)

theorem AggregateFilter_matches_iff_witness:
  "matches_of (AggregateFilter [TestAllFilter, CommandFilter ''/test bar'']) job_bar
   \<and> matches_of (CommandFilter ''/test bar'') job_bar
   \<and> \<not> matches_of (AggregateFilter [TestAllFilter, CommandFilter ''/test foo'']) job_bar"
  using AggregateFilter_matches_iff [of "[TestAllFilter, CommandFilter ''/test bar'']" job_bar]
    AggregateFilter_matches_iff [of "[TestAllFilter, CommandFilter ''/test foo'']" job_bar]
  by (simp add: matches_of_def TestAllFilter_def CommandFilter_def job_bar_def)


section \<open>FilterPresubmits\<close>

subsection \<open>What the loop computes\<close>

text \<open>
  When no matched presubmit fails, the loop runs to its end: it appends the triggered and
  the skipped presubmits, in input order, to the slices, and makes one \<open>ShouldRun\<close> call
  for each matched presubmit.
\<close>

lemma presubmits_loop_ok:
  assumes "\<forall>p\<in>set ps. \<not> run_condition_fails filt changes branch p"
  shows "presubmits_loop filt changes branch ps s calls =
     (Inr (s\<lparr>toTrigger := toTrigger s @ filter (triggers filt changes branch) ps,
            namesToTrigger := namesToTrigger s @ map Name (filter (triggers filt changes branch) ps),
            toSkip := toSkip s @ filter (skips filt changes branch) ps,
            namesToSkip := namesToSkip s @ map Name (filter (skips filt changes branch) ps)\<rparr>),
      calls @ map (should_run_call filt changes branch) (filter (matches_of filt) ps))"
  using assms
proof (induction ps arbitrary: s calls)
  case Nil
  then show ?case by simp
next
  case (Cons p ps)
  obtain m fo d where f: "filt p = (m, fo, d)" by (cases "filt p")
  obtain r e where sr: "ShouldRun p branch changes fo d = (r, e)"
    by (cases "ShouldRun p branch changes fo d")
  from Cons.prems have rest: "\<forall>q\<in>set ps. \<not> run_condition_fails filt changes branch q" by simp
  show ?case
  proof (cases m)
    case False
    with f show ?thesis
      by (simp add: Cons.IH [OF rest] triggers_def skips_def matches_of_def)
  next
    case True
    with Cons.prems f sr have e: "e = None"
      by (simp add: run_condition_fails_def run_condition_def matches_of_def forced_of_def defaults_of_def)
    with True f sr show ?thesis
      by (simp add: Cons.IH [OF rest] triggers_def skips_def matches_of_def run_condition_def
          forced_of_def defaults_of_def should_run_call_def)
  qed
qed

lemma presubmits_loop_append:
  "presubmits_loop filt changes branch (xs @ ys) s calls =
     (case presubmits_loop filt changes branch xs s calls of
        (Inl e, cs) \<Rightarrow> (Inl e, cs)
      | (Inr s', cs) \<Rightarrow> presubmits_loop filt changes branch ys s' cs)"
  by (induction xs arbitrary: s calls) (auto split: prod.splits option.splits sum.splits simp: Let_def)

lemma presubmits_loop_fails:
  assumes pre: "\<forall>q\<in>set pre. \<not> run_condition_fails filt changes branch q"
    and m: "matches_of filt p"
    and e: "snd (run_condition filt changes branch p) = Some e"
  shows "presubmits_loop filt changes branch (pre @ p # post) s calls =
     (Inl e, calls @ map (should_run_call filt changes branch) (filter (matches_of filt) pre)
               @ [should_run_call filt changes branch p])"
proof -
  obtain fo d where f: "filt p = (True, fo, d)"
    using m by (cases "filt p") (simp add: matches_of_def)
  obtain r where sr: "ShouldRun p branch changes fo d = (r, Some e)"
    using e f by (cases "ShouldRun p branch changes fo d")
      (simp add: run_condition_def forced_of_def defaults_of_def)
  show ?thesis
    by (simp add: presubmits_loop_append presubmits_loop_ok [OF pre] f sr should_run_call_def
        forced_of_def defaults_of_def)
qed

lemma first_failure:
  assumes "\<exists>p\<in>set ps. run_condition_fails filt changes branch p"
  obtains pre p post e where "ps = pre @ p # post"
    and "\<forall>q\<in>set pre. \<not> run_condition_fails filt changes branch q"
    and "matches_of filt p" and "snd (run_condition filt changes branch p) = Some e"
proof -
  from split_list_first_prop [OF assms] obtain pre p post where
    "ps = pre @ p # post" "run_condition_fails filt changes branch p"
    "\<forall>q\<in>set pre. \<not> run_condition_fails filt changes branch q" by blast
  then show thesis using that by (auto simp: run_condition_fails_def)
qed


subsection \<open>What FilterPresubmits returns and which calls it makes\<close>

lemma FilterPresubmits_ok:
  assumes "\<forall>p\<in>set ps. \<not> run_condition_fails filt changes branch p"
  shows "FilterPresubmits filt changes branch ps logger =
     ((filter (triggers filt changes branch) ps, filter (skips filt changes branch) ps, None),
      map (should_run_call filt changes branch) (filter (matches_of filt) ps)
        @ [DebugfCall logger
             (map Name (filter (triggers filt changes branch) ps))
             (map Name (filter (skips filt changes branch) ps))
             (length ps)
             (length (filter (triggers filt changes branch) ps))
             (length (filter (skips filt changes branch) ps))])"
  by (simp add: FilterPresubmits_def presubmits_loop_ok [OF assms] no_slices_def)

lemma FilterPresubmits_fails:
  assumes "\<forall>q\<in>set pre. \<not> run_condition_fails filt changes branch q"
    and "matches_of filt p"
    and "snd (run_condition filt changes branch p) = Some e"
  shows "FilterPresubmits filt changes branch (pre @ p # post) logger =
     (([], [], Some e),
      map (should_run_call filt changes branch) (filter (matches_of filt) pre)
        @ [should_run_call filt changes branch p])"
  by (simp add: FilterPresubmits_def presubmits_loop_fails [OF assms])

lemma evaluated_should_run_calls:
  "evaluated (map (should_run_call filt changes branch) ps) = ps"
  by (induction ps) (simp_all add: evaluated_def should_run_call_def)

lemma evaluated_append: "evaluated (xs @ ys) = evaluated xs @ evaluated ys"
  by (simp add: evaluated_def)

lemma evaluated_Debugf: "evaluated [DebugfCall l ns ms a b c] = []"
  by (simp add: evaluated_def)

lemma evaluated_single: "evaluated [should_run_call filt changes branch p] = [p]"
  by (simp add: evaluated_def should_run_call_def)

lemma FilterPresubmits_only_matched:
  "set (fst (fst (FilterPresubmits filt changes branch ps logger))) \<subseteq> {p. matches_of filt p}
   \<and> set (fst (snd (fst (FilterPresubmits filt changes branch ps logger)))) \<subseteq> {p. matches_of filt p}
   \<and> set (evaluated (snd (FilterPresubmits filt changes branch ps logger))) \<subseteq> {p. matches_of filt p}"
proof (cases "\<exists>p\<in>set ps. run_condition_fails filt changes branch p")
  case True
  then obtain pre p post e where "ps = pre @ p # post"
    and "\<forall>q\<in>set pre. \<not> run_condition_fails filt changes branch q"
    and "matches_of filt p" and "snd (run_condition filt changes branch p) = Some e"
    by (rule first_failure)
  then show ?thesis
    by (auto simp: FilterPresubmits_fails evaluated_append evaluated_should_run_calls
        evaluated_single)
next
  case False
  then have "\<forall>p\<in>set ps. \<not> run_condition_fails filt changes branch p" by simp
  then show ?thesis
    by (auto simp: FilterPresubmits_ok evaluated_append evaluated_should_run_calls
        evaluated_Debugf triggers_def skips_def)
qed

lemma triggers_skips_disjoint:
  "set (filter (triggers filt changes branch) ps) \<inter> set (filter (skips filt changes branch) ps) = {}"
  by (auto simp: triggers_def skips_def)

subsection \<open>The claims\<close>

text \<open>
  C1, as the code has it: for every filter, branch, change provider and ordered job list
  in which no matched job's \<open>ShouldRun\<close> returns an error, \<open>FilterPresubmits\<close> returns a
  nil error and a stable two-way partition of exactly the matched jobs: \<open>toTrigger\<close> is
  the input list restricted, in input order, to the matched jobs whose \<open>ShouldRun\<close> says
  true, \<open>toSkip\<close> is the input list restricted to the matched jobs whose \<open>ShouldRun\<close> says
  false, and no job is in both.
\<close>

theorem FilterPresubmits_partition:
  assumes "\<forall>p\<in>set ps. \<not> run_condition_fails filt changes branch p"
  shows "fst (FilterPresubmits filt changes branch ps logger) =
           (filter (triggers filt changes branch) ps, filter (skips filt changes branch) ps, None)
         \<and> set (filter (triggers filt changes branch) ps)
             \<inter> set (filter (skips filt changes branch) ps) = {}"
proof
  show "fst (FilterPresubmits filt changes branch ps logger) =
          (filter (triggers filt changes branch) ps, filter (skips filt changes branch) ps, None)"
    by (simp add: FilterPresubmits_ok [OF assms])
  show "set (filter (triggers filt changes branch) ps)
          \<inter> set (filter (skips filt changes branch) ps) = {}"
    by (rule triggers_skips_disjoint)
qed

theorem FilterPresubmits_partition_witness:
  "\<not> run_condition_fails TestAllFilter () ''main'' job_foo \<and>
   \<not> run_condition_fails TestAllFilter () ''main'' job_bar \<and>
   \<not> run_condition_fails TestAllFilter () ''main'' job_skip \<and>
   fst (FilterPresubmits TestAllFilter () ''main'' [job_skip, job_foo, job_bar, job_foo] ()) =
     ([job_foo, job_foo], [job_skip], None)"
  using FilterPresubmits_partition
    [of "[job_skip, job_foo, job_bar, job_foo]" TestAllFilter "()" "''main''" "()"]
  by (simp add: example_defs)

text \<open>
  Without that condition the claim fails: \<open>foo\<close> is matched by \<open>TestAllFilter\<close> and its
  \<open>ShouldRun\<close> says true, but the later job \<open>bad\<close> fails, the call returns
  \<open>nil, nil, err\<close>, and \<open>foo\<close> is not in \<open>toTrigger\<close>.
\<close>

theorem FilterPresubmits_partition_counterexample:
  "job_foo \<in> set [job_foo, job_bad] \<and> triggers TestAllFilter () ''main'' job_foo \<and>
   job_foo \<notin> set (fst (fst (FilterPresubmits TestAllFilter () ''main'' [job_foo, job_bad] ())))"
  by (simp add: FilterPresubmits_def no_slices_def example_defs)

text \<open>
  C3: if some matched job of the input list has a \<open>ShouldRun\<close> that returns an error,
  then \<open>FilterPresubmits\<close> returns a non-nil error with both output sequences empty. The
  error is that of the first such job \<open>p\<close>; the only calls made are the \<open>ShouldRun\<close>
  evaluations of the matched jobs before \<open>p\<close> and of \<open>p\<close> itself, so what was collected
  from the jobs before \<open>p\<close> is dropped and no job after \<open>p\<close> is evaluated.
\<close>

theorem FilterPresubmits_fail_fast:
  assumes "\<exists>p\<in>set ps. run_condition_fails filt changes branch p"
  shows "\<exists>pre p post e.
           ps = pre @ p # post \<and>
           (\<forall>q\<in>set pre. \<not> run_condition_fails filt changes branch q) \<and>
           matches_of filt p \<and> snd (run_condition filt changes branch p) = Some e \<and>
           FilterPresubmits filt changes branch ps logger =
             (([], [], Some e),
              map (should_run_call filt changes branch) (filter (matches_of filt) pre)
                @ [should_run_call filt changes branch p])"
proof -
  from assms obtain pre p post e where split: "ps = pre @ p # post"
    and pre: "\<forall>q\<in>set pre. \<not> run_condition_fails filt changes branch q"
    and m: "matches_of filt p" and e: "snd (run_condition filt changes branch p) = Some e"
    by (rule first_failure)
  have "FilterPresubmits filt changes branch ps logger =
          (([], [], Some e),
           map (should_run_call filt changes branch) (filter (matches_of filt) pre)
             @ [should_run_call filt changes branch p])"
    unfolding split by (rule FilterPresubmits_fails [OF pre m e])
  with split pre m e show ?thesis by blast
qed

theorem FilterPresubmits_fail_fast_witness:
  "run_condition_fails TestAllFilter () ''main'' job_bad \<and>
   fst (FilterPresubmits TestAllFilter () ''main'' [job_foo, job_bar, job_bad, job_skip] ()) =
     ([], [], Some ''bad pattern'') \<and>
   snd (FilterPresubmits TestAllFilter () ''main'' [job_foo, job_bar, job_bad, job_skip] ()) =
     [ShouldRunCall job_foo ''main'' () False False, ShouldRunCall job_bad ''main'' () False False]"
proof -
  let ?ps = "[job_foo, job_bar, job_bad, job_skip]"
  have bad: "run_condition_fails TestAllFilter () ''main'' job_bad"
    by (simp add: example_defs)
  then have h: "\<exists>p\<in>set ?ps. run_condition_fails TestAllFilter () ''main'' p" by simp
  from FilterPresubmits_fail_fast [OF h, of "()"] obtain pre p post e where
    split: "?ps = pre @ p # post"
    and pre: "\<forall>q\<in>set pre. \<not> run_condition_fails TestAllFilter () ''main'' q"
    and e: "snd (run_condition TestAllFilter () ''main'' p) = Some e"
    and r: "FilterPresubmits TestAllFilter () ''main'' ?ps () =
             (([], [], Some e),
              map (should_run_call TestAllFilter () ''main'') (filter (matches_of TestAllFilter) pre)
                @ [should_run_call TestAllFilter () ''main'' p])"
    by blast
  have "pre = [job_foo, job_bar] \<and> p = job_bad"
    using split pre bad e
    by (auto simp: Cons_eq_append_conv append_eq_Cons_conv example_defs)
  with r e bad show ?thesis
    by (simp add: example_defs)
qed


text \<open>
  C6: a job \<open>j\<close> of the input list that the filter does not match is in neither
  \<open>toTrigger\<close> nor \<open>toSkip\<close>, and its \<open>ShouldRun\<close> is not evaluated.
\<close>

theorem FilterPresubmits_unmatched:
  assumes "j \<in> set ps" and "\<not> matches_of filt j"
  shows "j \<notin> set (fst (fst (FilterPresubmits filt changes branch ps logger)))
       \<and> j \<notin> set (fst (snd (fst (FilterPresubmits filt changes branch ps logger))))
       \<and> j \<notin> set (evaluated (snd (FilterPresubmits filt changes branch ps logger)))"
  using assms(2) FilterPresubmits_only_matched [of filt changes branch ps logger]
  by blast

theorem FilterPresubmits_unmatched_witness:
  "job_bar \<in> set [job_foo, job_bar, job_skip] \<and> \<not> matches_of TestAllFilter job_bar
   \<and> job_bar \<notin> set (fst (fst (FilterPresubmits TestAllFilter () ''main'' [job_foo, job_bar, job_skip] ())))
   \<and> job_bar \<notin> set (fst (snd (fst (FilterPresubmits TestAllFilter () ''main'' [job_foo, job_bar, job_skip] ()))))
   \<and> job_bar \<notin> set (evaluated (snd (FilterPresubmits TestAllFilter () ''main'' [job_foo, job_bar, job_skip] ())))"
proof -
  have m: "\<not> matches_of TestAllFilter job_bar" by (simp add: example_defs)
  have i: "job_bar \<in> set [job_foo, job_bar, job_skip]" by simp
  from FilterPresubmits_unmatched [OF i m, of "()" "''main''" "()"] i m show ?thesis by simp
qed

subsection \<open>The logger\<close>






end
